theory Spec2Isabelle
  imports Main "HOL-Library.Sublist" "HOL-Library.AList"
begin

section \<open>Data model\<close>

text \<open>
  A term of a vocabulary, as \<^verbatim>\<open>zope.schema.vocabulary.SimpleTerm\<close>: a token and a title
  that may be missing (\<^verbatim>\<open>None\<close>, or no attribute at all). Such a term declares
  \<^verbatim>\<open>ITitledTokenizedTerm\<close> exactly when it carries a title. Every string is held as
  text already, so \<^verbatim>\<open>safe_text\<close> and the decoding of bytes have nothing to do.
\<close>

record SimpleTerm =
  token :: string
  title :: "string option"

definition ITitledTokenizedTerm_providedBy :: "SimpleTerm \<Rightarrow> bool" where
  "ITitledTokenizedTerm_providedBy t = (title t \<noteq> None)"

text \<open>
  \<^verbatim>\<open>TreeVocabItems = OrderedDict[SimpleTerm, 'TreeVocabItems']\<close>: the constructor holds the
  entries in insertion order, the selector is \<^verbatim>\<open>.items()\<close>.
\<close>

datatype TreeVocabItems = OrderedDict (items: "(SimpleTerm \<times> TreeVocabItems) list")

text \<open>What the output is made of. A Python dict keeps insertion order: an association list.\<close>

datatype json = JString string | JInt int | JList "json list" | JDict "(string \<times> json) list"

type_synonym dict = "(string \<times> json) list"

text \<open>\<^verbatim>\<open>d[k] = v\<close>: an existing key keeps its place, a new one goes to the end.\<close>

definition setitem :: "('k \<times> 'v) list \<Rightarrow> 'k \<Rightarrow> 'v \<Rightarrow> ('k \<times> 'v) list" where
  "setitem d k v = AList.update k v d"

text \<open>
  The keys of an \<^verbatim>\<open>OrderedDict\<close> are pairwise different, at every level of a tree. The
  constructor above admits lists that repeat a key, which no \<^verbatim>\<open>OrderedDict\<close> is; the
  properties of trees are stated for the lists that are.
\<close>

fun wf_items :: "TreeVocabItems \<Rightarrow> bool" where
  "wf_items (OrderedDict xs) = (distinct (map fst xs) \<and> (\<forall>x \<in> set xs. wf_items (snd x)))"

datatype error = ComponentLookupError | Raised string

text \<open>The request parameters, after the defaults of \<^verbatim>\<open>form.get\<close>.\<close>

datatype tokens_param = Str string | Lst "string list"

record request =
  form_title :: string
  form_token :: string
  form_tokens :: tokens_param
  form_b_size :: string

record response =
  status :: nat

text \<open>
  Modelled from the spec: \<^verbatim>\<open>HypermediaBatch\<close> of \<^verbatim>\<open>plone.restapi.batching\<close> is not
  part of the sources. Its result is the spec's Page (the items of the page, their total,
  the canonical URL and the links); the constructor itself is a parameter of every
  function that batches, and may raise.
\<close>

record 'a HypermediaBatch =
  batch_items :: "'a list"
  canonical_url :: string
  items_total :: int
  links :: dict

type_synonym 'a batching = "request \<Rightarrow> 'a list \<Rightarrow> error + 'a HypermediaBatch"

section \<open>Strings\<close>

definition safe_text :: "string \<Rightarrow> string" where
  "safe_text s = s"

definition lower_char :: "char \<Rightarrow> char" where
  "lower_char c =
     (case map_of (zip ''ABCDEFGHIJKLMNOPQRSTUVWXYZ'' ''abcdefghijklmnopqrstuvwxyz'') c of
        Some l \<Rightarrow> l
      | None \<Rightarrow> c)"

text \<open>
  \<^verbatim>\<open>str.lower()\<close> on ASCII text: the letters A to Z are mapped to a to z and every other
  character is kept. No proof of a general property below looks into this definition.
\<close>

definition lower :: "string \<Rightarrow> string" where
  "lower s = map lower_char s"

text \<open>\<^verbatim>\<open>sub in s\<close> on strings.\<close>

fun contains :: "string \<Rightarrow> string \<Rightarrow> bool" where
  "contains [] sub = (sub = [])"
| "contains (c # cs) sub = (prefix sub (c # cs) \<or> contains cs sub)"

section \<open>The serializer of one term\<close>

text \<open>
  \<^verbatim>\<open>getMultiAdapter((term, request), interface=ISerializeToJson)\<close> looks the serializer of a
  term up in the component registry, a parameter here, and raises when there is none.
  Calling the serializer gives the record of the term, or raises.
\<close>

type_synonym serializer = "unit \<Rightarrow> error + dict"

type_synonym registry = "SimpleTerm \<Rightarrow> serializer option"

definition getMultiAdapter :: "registry \<Rightarrow> SimpleTerm \<Rightarrow> error + serializer" where
  "getMultiAdapter reg t = (case reg t of None \<Rightarrow> Inl ComponentLookupError | Some s \<Rightarrow> Inr s)"

definition SerializeTermToJson :: "(string \<Rightarrow> string) \<Rightarrow> SimpleTerm \<Rightarrow> serializer" where
  "SerializeTermToJson translate t = (\<lambda>_.
     (let tok = token t;
          ttl = (if ITitledTokenizedTerm_providedBy t then the (title t) else tok)
      in Inr [(''token'', JString tok), (''title'', JString (translate ttl))]))"

section \<open>Filtering\<close>

text \<open>\<^verbatim>\<open>safe_text(getattr(term, "title", None) or "")\<close>\<close>

definition term_title :: "SimpleTerm \<Rightarrow> string" where
  "term_title t = safe_text (case title t of None \<Rightarrow> [] | Some s \<Rightarrow> (if s = [] then [] else s))"

definition truthy :: "tokens_param \<Rightarrow> bool" where
  "truthy p = (case p of Str s \<Rightarrow> s \<noteq> [] | Lst l \<Rightarrow> l \<noteq> [])"

text \<open>\<^verbatim>\<open>if isinstance(tokens, str): tokens = [tokens]\<close>\<close>

definition as_list :: "tokens_param \<Rightarrow> string list" where
  "as_list p = (case p of Str s \<Rightarrow> [s] | Lst l \<Rightarrow> l)"

text \<open>The inner loop of the flat filter (lines 80 to 83): there is no \<^verbatim>\<open>break\<close>.\<close>

fun flat_tokens_loop :: "string list \<Rightarrow> SimpleTerm \<Rightarrow> SimpleTerm list \<Rightarrow> SimpleTerm list" where
  "flat_tokens_loop [] t terms = terms"
| "flat_tokens_loop (item # rest) t terms =
     (if lower item \<noteq> lower (token t) then flat_tokens_loop rest t terms
      else flat_tokens_loop rest t (terms @ [t]))"

text \<open>
  The loop over a flat vocabulary (lines 69 to 91 of \<^verbatim>\<open>__call__\<close>); the last argument is
  the list \<^verbatim>\<open>terms\<close> built so far. The variable \<^verbatim>\<open>tokens\<close> is reassigned inside the loop
  and so is passed on.
\<close>

fun flat_loop :: "(string \<Rightarrow> string) \<Rightarrow> string \<Rightarrow> string \<Rightarrow> tokens_param \<Rightarrow>
    SimpleTerm list \<Rightarrow> SimpleTerm list \<Rightarrow> SimpleTerm list" where
  "flat_loop translate qtitle qtoken qtokens [] terms = terms"
| "flat_loop translate qtitle qtoken qtokens (t # vocabulary) terms =
     (if qtoken \<noteq> [] then
        (if lower qtoken \<noteq> lower (token t)
         then flat_loop translate qtitle qtoken qtokens vocabulary terms
         else flat_loop translate qtitle qtoken qtokens vocabulary (terms @ [t]))
      else if truthy qtokens then
        (let tokens = as_list qtokens
         in flat_loop translate qtitle qtoken (Lst tokens) vocabulary
              (flat_tokens_loop tokens t terms))
      else
        (if \<not> contains (lower (translate (term_title t))) (lower qtitle)
         then flat_loop translate qtitle qtoken qtokens vocabulary terms
         else flat_loop translate qtitle qtoken qtokens vocabulary (terms @ [t])))"

text \<open>The inner loop of the tree filter (lines 144 to 147), which stops at the first match.\<close>

fun tree_tokens_loop :: "string list \<Rightarrow> SimpleTerm \<Rightarrow> bool \<Rightarrow> bool" where
  "tree_tokens_loop [] t use = use"
| "tree_tokens_loop (item # rest) t use =
     (if lower item = lower (token t) then True else tree_tokens_loop rest t use)"

text \<open>Lines 135 to 155: whether the term itself passes the filter.\<close>

definition tree_use :: "(string \<Rightarrow> string) \<Rightarrow> string \<Rightarrow> string \<Rightarrow> string list \<Rightarrow> SimpleTerm \<Rightarrow> bool" where
  "tree_use translate qtitle qtoken tokens t =
     (if qtoken \<noteq> [] then (if lower qtoken = lower (token t) then True else False)
      else if tokens \<noteq> [] then tree_tokens_loop tokens t False
      else (if contains (lower (translate (term_title t))) (lower qtitle) then True else False))"

text \<open>
  \<^verbatim>\<open>filter_tree_vocab\<close> and its loop over \<^verbatim>\<open>outer\<close>; the last argument of the loop is the
  \<^verbatim>\<open>OrderedDict\<close> \<^verbatim>\<open>terms\<close> built so far.
\<close>

definition filter_tree_measure :: "(string \<Rightarrow> string) \<times> (SimpleTerm \<times> TreeVocabItems) list \<times>
      string \<times> string \<times> tokens_param +
    (string \<Rightarrow> string) \<times> (SimpleTerm \<times> TreeVocabItems) list \<times>
      string \<times> string \<times> string list \<times> (SimpleTerm \<times> TreeVocabItems) list \<Rightarrow> nat" where
  "filter_tree_measure x = (case x of
       Inl (_, outer, _) \<Rightarrow> 2 * size (OrderedDict outer) + 1
     | Inr (_, outer, _) \<Rightarrow> 2 * size (OrderedDict outer))"

function filter_tree_vocab :: "(string \<Rightarrow> string) \<Rightarrow> (SimpleTerm \<times> TreeVocabItems) list \<Rightarrow>
    string \<Rightarrow> string \<Rightarrow> tokens_param \<Rightarrow> TreeVocabItems"
  and filter_tree_loop :: "(string \<Rightarrow> string) \<Rightarrow> (SimpleTerm \<times> TreeVocabItems) list \<Rightarrow>
    string \<Rightarrow> string \<Rightarrow> string list \<Rightarrow> (SimpleTerm \<times> TreeVocabItems) list \<Rightarrow>
    (SimpleTerm \<times> TreeVocabItems) list" where
  "filter_tree_vocab translate outer qtitle qtoken qtokens =
     OrderedDict (filter_tree_loop translate outer qtitle qtoken (as_list qtokens) [])"
| "filter_tree_loop translate [] qtitle qtoken tokens terms = terms"
| "filter_tree_loop translate ((t, sub_terms) # outer) qtitle qtoken tokens terms =
     (let use = tree_use translate qtitle qtoken tokens t;
          inner = filter_tree_vocab translate (items sub_terms) qtitle qtoken (Lst tokens);
          use = (if length (items inner) > 0 then True else use)
      in filter_tree_loop translate outer qtitle qtoken tokens
           (if use then setitem terms t inner else terms))"
  by pat_completeness auto

termination
proof (relation "measure filter_tree_measure", goal_cases)
  case (3 translate t sub_terms outer qtitle qtoken tokens terms)
  then show ?case by (cases sub_terms) (simp add: filter_tree_measure_def)
qed (simp_all add: filter_tree_measure_def)

section \<open>Serializing\<close>

text \<open>The two loops of \<^verbatim>\<open>__call__\<close> over flat terms (lines 97 to 101 and 106 to 110).\<close>

fun serialize_terms :: "registry \<Rightarrow> SimpleTerm list \<Rightarrow> json list \<Rightarrow> error + json list" where
  "serialize_terms reg [] serialized_terms = Inr serialized_terms"
| "serialize_terms reg (t # rest) serialized_terms =
     (case getMultiAdapter reg t of
        Inl e \<Rightarrow> Inl e
      | Inr serializer \<Rightarrow>
          (case serializer () of
             Inl e \<Rightarrow> Inl e
           | Inr result \<Rightarrow> serialize_terms reg rest (serialized_terms @ [JDict result])))"

text \<open>
  The argument of \<^verbatim>\<open>serialize_tree_vocab\<close> is a mapping or a batch of its entries.
\<close>

datatype terms_or_batch =
  Terms TreeVocabItems
| Batch "(SimpleTerm \<times> TreeVocabItems) HypermediaBatch"

definition iterable :: "terms_or_batch \<Rightarrow> (SimpleTerm \<times> TreeVocabItems) list" where
  "iterable terms = (case terms of Batch b \<Rightarrow> batch_items b | Terms d \<Rightarrow> items d)"

definition serialize_tree_measure :: "registry \<times> terms_or_batch +
    registry \<times> (SimpleTerm \<times> TreeVocabItems) list \<times> json list \<Rightarrow> nat" where
  "serialize_tree_measure x = (case x of
       Inl (_, terms) \<Rightarrow> 2 * size (OrderedDict (iterable terms)) + 1
     | Inr (_, entries, _) \<Rightarrow> 2 * size (OrderedDict entries))"

function serialize_tree_vocab :: "registry \<Rightarrow> terms_or_batch \<Rightarrow> error + json list"
  and serialize_tree_loop :: "registry \<Rightarrow> (SimpleTerm \<times> TreeVocabItems) list \<Rightarrow> json list \<Rightarrow>
    error + json list" where
  "serialize_tree_vocab reg terms = serialize_tree_loop reg (iterable terms) []"
| "serialize_tree_loop reg [] result_list = Inr result_list"
| "serialize_tree_loop reg ((t, sub_terms) # rest) result_list =
     (case getMultiAdapter reg t of
        Inl e \<Rightarrow> Inl e
      | Inr serializer \<Rightarrow>
          (case serializer () of
             Inl e \<Rightarrow> Inl e
           | Inr result \<Rightarrow>
               (if length (items sub_terms) > 0 then
                  (case serialize_tree_vocab reg (Terms sub_terms) of
                     Inl e \<Rightarrow> Inl e
                   | Inr children \<Rightarrow>
                       serialize_tree_loop reg rest
                         (result_list @ [JDict (setitem result ''items'' (JList children))]))
                else serialize_tree_loop reg rest (result_list @ [JDict result]))))"
  by pat_completeness auto

termination
proof (relation "measure serialize_tree_measure", goal_cases)
  case (3 reg t sub_terms rest result_list x2 x2a)
  then show ?case by (cases sub_terms) (simp add: serialize_tree_measure_def iterable_def)
qed (simp_all add: serialize_tree_measure_def iterable_def)

section \<open>The serializer of a vocabulary\<close>

datatype vocabulary = Vocabulary "SimpleTerm list" | TreeVocabulary TreeVocabItems

definition invalid_parameters :: json where
  "invalid_parameters = JDict [(''error'', JDict
     [(''type'', JString ''Invalid parameters''),
      (''message'', JString ''You can not filter by title and token at the same time.'')])]"

text \<open>Lines 58 to 67 and 112 to 120: the result of a batched call.\<close>

definition batched_result :: "'a HypermediaBatch \<Rightarrow> json list \<Rightarrow> json" where
  "batched_result batch serialized_terms =
     (let result = [(''@id'', JString (canonical_url batch)),
                    (''items'', JList serialized_terms),
                    (''items_total'', JInt (items_total batch))];
          lnks = links batch
      in JDict (if lnks \<noteq> [] then setitem result ''batching'' (JDict lnks) else result))"

text \<open>
  \<^verbatim>\<open>SerializeVocabLikeToJson.__call__\<close>. The collaborators are parameters: the translation,
  the registry of serializers and \<^verbatim>\<open>HypermediaBatch\<close>, at the two types it is used at.
  The result is the response, whose status the call may set, and the returned value or
  the exception that reaches the caller.
\<close>

definition call :: "(string \<Rightarrow> string) \<Rightarrow> registry \<Rightarrow> SimpleTerm batching \<Rightarrow>
    (SimpleTerm \<times> TreeVocabItems) batching \<Rightarrow> request \<Rightarrow> response \<Rightarrow> string \<Rightarrow> vocabulary \<Rightarrow>
    response \<times> (error + json)" where
  "call translate reg batch_flat batch_tree req resp vocabulary_id vocab =
     (let qtitle = safe_text (form_title req);
          qtoken = form_token req;
          qtokens = form_tokens req;
          b_size = form_b_size req
      in if qtitle \<noteq> [] \<and> qtoken \<noteq> [] then (resp\<lparr>status := 400\<rparr>, Inr invalid_parameters)
         else (case vocab of
           TreeVocabulary tree \<Rightarrow>
             (let terms = filter_tree_vocab translate (items tree) qtitle qtoken qtokens
              in if b_size = ''-1'' then
                   (case serialize_tree_vocab reg (Terms terms) of
                      Inl e \<Rightarrow> (resp, Inl e)
                    | Inr serialized_terms \<Rightarrow>
                        (resp, Inr (JDict [(''@id'', JString vocabulary_id),
                                           (''items'', JList serialized_terms)])))
                 else
                   (case batch_tree req (items terms) of
                      Inl e \<Rightarrow> (resp, Inl e)
                    | Inr batch \<Rightarrow>
                        (case serialize_tree_vocab reg (Batch batch) of
                           Inl e \<Rightarrow> (resp, Inl e)
                         | Inr serialized_terms \<Rightarrow>
                             (resp, Inr (batched_result batch serialized_terms)))))
         | Vocabulary terms0 \<Rightarrow>
             (let terms = flat_loop translate qtitle qtoken qtokens terms0 []
              in if b_size = ''-1'' then
                   (case serialize_terms reg terms [] of
                      Inl e \<Rightarrow> (resp, Inl e)
                    | Inr serialized_terms \<Rightarrow>
                        (resp, Inr (JDict [(''@id'', JString vocabulary_id),
                                           (''items'', JList serialized_terms)])))
                 else
                   (case batch_flat req terms of
                      Inl e \<Rightarrow> (resp, Inl e)
                    | Inr batch \<Rightarrow>
                        (case serialize_terms reg (batch_items batch) [] of
                           Inl e \<Rightarrow> (resp, Inl e)
                         | Inr serialized_terms \<Rightarrow>
                             (resp, Inr (batched_result batch serialized_terms)))))))"

section \<open>Notions the properties are stated with\<close>

text \<open>
  Lines 194 to 196 register \<^verbatim>\<open>SerializeTermToJson\<close> as the serializer of every tokenized
  term: the registry in which no other adapter is registered.
\<close>

definition term_adapters :: "(string \<Rightarrow> string) \<Rightarrow> registry" where
  "term_adapters translate t = Some (SerializeTermToJson translate t)"

text \<open>Every term of a tree, parents before children.\<close>

fun tree_terms :: "TreeVocabItems \<Rightarrow> SimpleTerm list" where
  "tree_terms (OrderedDict xs) = concat (map (\<lambda>x. fst x # tree_terms (snd x)) xs)"

text \<open>The mapping reached from a mapping by a path of keys, if the path exists.\<close>

fun subtree_at :: "TreeVocabItems \<Rightarrow> SimpleTerm list \<Rightarrow> TreeVocabItems option" where
  "subtree_at d [] = Some d"
| "subtree_at d (t # path) =
     (case map_of (items d) t of None \<Rightarrow> None | Some sub \<Rightarrow> subtree_at sub path)"

text \<open>
  The title of a term in the words of the specification (section 4.2): the title of a
  titled term, the token of any other.
\<close>

definition spec_titleOf :: "SimpleTerm \<Rightarrow> string" where
  "spec_titleOf t = (if ITitledTokenizedTerm_providedBy t then the (title t) else token t)"

definition spec_title_match :: "(string \<Rightarrow> string) \<Rightarrow> string \<Rightarrow> SimpleTerm \<Rightarrow> bool" where
  "spec_title_match translate qtitle t =
     contains (lower (translate (spec_titleOf t))) (lower qtitle)"

text \<open>The registry has a serializer for the term, and calling it returns a record.\<close>

definition serializes :: "registry \<Rightarrow> SimpleTerm \<Rightarrow> bool" where
  "serializes reg t =
     (case reg t of None \<Rightarrow> False | Some s \<Rightarrow> (case s () of Inl _ \<Rightarrow> False | Inr _ \<Rightarrow> True))"

subsection \<open>Sample data\<close>

definition fruit :: SimpleTerm where "fruit = \<lparr>token = ''fruit'', title = None\<rparr>"
definition apple :: SimpleTerm where "apple = \<lparr>token = ''apple'', title = Some ''Apple''\<rparr>"
definition banana :: SimpleTerm where "banana = \<lparr>token = ''banana'', title = Some ''Banana''\<rparr>"
definition veg :: SimpleTerm where "veg = \<lparr>token = ''veg'', title = None\<rparr>"
definition carrot :: SimpleTerm where "carrot = \<lparr>token = ''carrot'', title = Some ''Carrot''\<rparr>"

definition sample_tree :: TreeVocabItems where
  "sample_tree = OrderedDict
     [(fruit, OrderedDict [(apple, OrderedDict []), (banana, OrderedDict [])]),
      (veg, OrderedDict [(carrot, OrderedDict [])])]"

definition sample_request :: request where
  "sample_request = \<lparr>form_title = [], form_token = ''Apple'', form_tokens = Lst [],
     form_b_size = []\<rparr>"

definition title_request :: "string \<Rightarrow> string \<Rightarrow> request" where
  "title_request qtitle b_size = \<lparr>form_title = qtitle, form_token = [], form_tokens = Lst [],
     form_b_size = b_size\<rparr>"

text \<open>A batching that returns the first \<open>n\<close> items, with a link when more are left.\<close>

definition first_page :: "nat \<Rightarrow> 'a batching" where
  "first_page n req xs = Inr \<lparr>batch_items = take n xs,
     canonical_url = ''http://nohost/@vocabularies/sample'',
     items_total = int (length xs),
     links = (if n < length xs then [(''next'', JString ''http://nohost/next'')] else [])\<rparr>"

section \<open>Facts about strings and the flat loop\<close>

lemma contains_empty: "contains s []"
  by (induction s) simp_all

lemma as_list_Lst: "as_list (Lst l) = l"
  by (simp add: as_list_def)

lemma flat_tokens_loop_append:
  "flat_tokens_loop toks t terms =
     terms @ replicate (length (filter (\<lambda>item. lower item = lower (token t)) toks)) t"
  by (induction toks arbitrary: terms) (simp_all add: replicate_append_same)

lemma flat_loop_token:
  "qtoken \<noteq> [] \<Longrightarrow> flat_loop translate qtitle qtoken qtokens vocabulary terms =
     terms @ filter (\<lambda>t. lower qtoken = lower (token t)) vocabulary"
  by (induction vocabulary arbitrary: terms) simp_all

lemma flat_loop_title:
  "\<not> truthy qtokens \<Longrightarrow> flat_loop translate qtitle [] qtokens vocabulary terms =
     terms @ filter (\<lambda>t. contains (lower (translate (term_title t))) (lower qtitle)) vocabulary"
  by (induction vocabulary arbitrary: terms) simp_all

lemma truthy_as_list: "truthy qtokens \<Longrightarrow> truthy (Lst (as_list qtokens))"
  by (cases qtokens) (simp_all add: truthy_def as_list_def)

lemma flat_loop_tokens:
  "truthy qtokens \<Longrightarrow> flat_loop translate qtitle [] qtokens vocabulary terms =
     terms @ concat (map (\<lambda>t. replicate
        (length (filter (\<lambda>item. lower item = lower (token t)) (as_list qtokens))) t) vocabulary)"
proof (induction vocabulary arbitrary: terms qtokens)
  case Nil
  then show ?case by simp
next
  case (Cons t vocabulary)
  have "truthy (Lst (as_list qtokens))"
    using Cons.prems by (rule truthy_as_list)
  from Cons.IH [OF this] Cons.prems show ?case
    by (simp add: flat_tokens_loop_append as_list_Lst Let_def)
qed

section \<open>Facts about the tree filter\<close>

lemma setitem_fresh: "k \<notin> fst ` set d \<Longrightarrow> setitem d k v = d @ [(k, v)]"
  by (induction d) (auto simp: setitem_def)

lemma filter_tree_loop_distinct:
  assumes "distinct (map fst outer)" and "fst ` set terms \<inter> fst ` set outer = {}"
  shows "filter_tree_loop translate outer qtitle qtoken tokens terms =
     terms @ map (\<lambda>x. (fst x, filter_tree_vocab translate (items (snd x)) qtitle qtoken (Lst tokens)))
       (filter (\<lambda>x. tree_use translate qtitle qtoken tokens (fst x) \<or>
          items (filter_tree_vocab translate (items (snd x)) qtitle qtoken (Lst tokens)) \<noteq> []) outer)"
  using assms
proof (induction outer arbitrary: terms)
  case Nil
  then show ?case by simp
next
  case (Cons x outer)
  obtain t sub_terms where x: "x = (t, sub_terms)" by (cases x)
  let ?inner = "filter_tree_vocab translate (items sub_terms) qtitle qtoken (Lst tokens)"
  let ?use = "tree_use translate qtitle qtoken tokens t \<or> items ?inner \<noteq> []"
  let ?terms = "if ?use then setitem terms t ?inner else terms"
  have fresh: "t \<notin> fst ` set terms" using Cons.prems x by auto
  have d: "distinct (map fst outer)" using Cons.prems by simp
  have "fst ` set ?terms \<inter> fst ` set outer = {}"
    using Cons.prems x fresh by (auto simp: setitem_fresh)
  from Cons.IH [OF d this] have
    "filter_tree_loop translate outer qtitle qtoken tokens ?terms =
      ?terms @ map (\<lambda>x. (fst x, filter_tree_vocab translate (items (snd x)) qtitle qtoken (Lst tokens)))
       (filter (\<lambda>x. tree_use translate qtitle qtoken tokens (fst x) \<or>
          items (filter_tree_vocab translate (items (snd x)) qtitle qtoken (Lst tokens)) \<noteq> []) outer)" .
  moreover have "filter_tree_loop translate (x # outer) qtitle qtoken tokens terms =
     filter_tree_loop translate outer qtitle qtoken tokens ?terms"
    unfolding x by (simp add: Let_def del: filter_tree_vocab.simps)
  ultimately show ?case
    using fresh by (simp add: x setitem_fresh del: filter_tree_vocab.simps)
qed

lemma filter_tree_vocab_Lst:
  "filter_tree_vocab translate outer qtitle qtoken qtokens =
   filter_tree_vocab translate outer qtitle qtoken (Lst (as_list qtokens))"
  by (simp add: as_list_Lst)

lemma filter_tree_vocab_distinct:
  assumes "distinct (map fst outer)"
  shows "items (filter_tree_vocab translate outer qtitle qtoken (Lst tokens)) =
     map (\<lambda>x. (fst x, filter_tree_vocab translate (items (snd x)) qtitle qtoken (Lst tokens)))
       (filter (\<lambda>x. tree_use translate qtitle qtoken tokens (fst x) \<or>
          items (filter_tree_vocab translate (items (snd x)) qtitle qtoken (Lst tokens)) \<noteq> []) outer)"
proof -
  have "filter_tree_vocab translate outer qtitle qtoken (Lst tokens) =
      OrderedDict (filter_tree_loop translate outer qtitle qtoken tokens [])"
    by (simp add: as_list_Lst)
  then show ?thesis
    using filter_tree_loop_distinct [OF assms, of "[]" translate qtitle qtoken tokens]
    by (simp del: filter_tree_vocab.simps)
qed

declare filter_tree_vocab.simps [simp del]

lemma filter_tree_vocab_keys:
  assumes "distinct (map fst outer)"
  shows "map fst (items (filter_tree_vocab translate outer qtitle qtoken (Lst tokens))) =
     map fst (filter (\<lambda>x. tree_use translate qtitle qtoken tokens (fst x) \<or>
          items (filter_tree_vocab translate (items (snd x)) qtitle qtoken (Lst tokens)) \<noteq> []) outer)"
  by (simp add: filter_tree_vocab_distinct [OF assms] comp_def)

lemma filter_tree_vocab_subseq:
  assumes "distinct (map fst outer)"
  shows "subseq (map fst (items (filter_tree_vocab translate outer qtitle qtoken (Lst tokens))))
     (map fst outer)"
  unfolding filter_tree_vocab_keys [OF assms] by (simp add: subseq_map)

lemma filter_tree_vocab_distinct_keys:
  assumes "distinct (map fst outer)"
  shows "distinct (map fst (items (filter_tree_vocab translate outer qtitle qtoken (Lst tokens))))"
  unfolding filter_tree_vocab_keys [OF assms] using assms by (rule distinct_map_filter)

lemma wf_items_iff:
  "wf_items d \<longleftrightarrow> distinct (map fst (items d)) \<and> (\<forall>x \<in> set (items d). wf_items (snd x))"
  by (cases d) simp

lemma wf_items_distinct: "wf_items d \<Longrightarrow> distinct (map fst (items d))"
  by (cases d) simp

lemma wf_items_child: "wf_items d \<Longrightarrow> (t, s) \<in> set (items d) \<Longrightarrow> wf_items s"
  by (cases d) auto

lemma wf_filter_tree_vocab:
  "wf_items d \<Longrightarrow> wf_items (filter_tree_vocab translate (items d) qtitle qtoken (Lst tokens))"
proof (induction d)
  case (OrderedDict xs)
  have d: "distinct (map fst xs)" using OrderedDict.prems by simp
  have sub: "wf_items (filter_tree_vocab translate (items (snd x)) qtitle qtoken (Lst tokens))"
    if "x \<in> set xs" for x
  proof -
    obtain t s where x: "x = (t, s)" by (cases x)
    have "wf_items s" using OrderedDict.prems that x by auto
    then show ?thesis using OrderedDict.IH [of x s] that x by simp
  qed
  show ?case
    apply (subst wf_items_iff)
    using filter_tree_vocab_distinct_keys [OF d] sub
    by (auto simp: filter_tree_vocab_distinct [OF d])
qed

lemma filter_tree_vocab_idem:
  "wf_items d \<Longrightarrow>
   filter_tree_vocab translate
     (items (filter_tree_vocab translate (items d) qtitle qtoken (Lst tokens)))
     qtitle qtoken (Lst tokens) =
   filter_tree_vocab translate (items d) qtitle qtoken (Lst tokens)"
proof (induction d)
  case (OrderedDict xs)
  let ?F = "\<lambda>ys. filter_tree_vocab translate ys qtitle qtoken (Lst tokens)"
  let ?P = "\<lambda>x. tree_use translate qtitle qtoken tokens (fst x) \<or> items (?F (items (snd x))) \<noteq> []"
  let ?g = "\<lambda>x. (fst x, ?F (items (snd x)))"
  have d: "distinct (map fst xs)" using OrderedDict.prems by simp
  have ih: "?F (items (?F (items (snd x)))) = ?F (items (snd x))" if "x \<in> set xs" for x
  proof -
    obtain t s where x: "x = (t, s)" by (cases x)
    have "wf_items s" using OrderedDict.prems that x by auto
    then show ?thesis using OrderedDict.IH [of x s] that x by simp
  qed
  have 1: "items (?F xs) = map ?g (filter ?P xs)"
    by (rule filter_tree_vocab_distinct [OF d])
  have d2: "distinct (map fst (items (?F xs)))"
    by (rule filter_tree_vocab_distinct_keys [OF d])
  have 2: "items (?F (items (?F xs))) = map ?g (filter ?P (items (?F xs)))"
    by (rule filter_tree_vocab_distinct [OF d2])
  have "map ?g (filter ?P (map ?g (filter ?P xs))) = map ?g (filter ?P xs)"
  proof -
    have "filter ?P (map ?g (filter ?P xs)) = map ?g (filter ?P xs)"
      by (rule filter_True) (auto simp: ih)
    moreover have "map ?g (map ?g (filter ?P xs)) = map ?g (filter ?P xs)"
      by (auto simp: ih)
    ultimately show ?thesis by simp
  qed
  then have "items (?F (items (?F xs))) = items (?F xs)"
    using 1 2 by simp
  then show ?case
    by (simp add: TreeVocabItems.expand)
qed

lemma tree_use_empty: "tree_use translate [] [] [] t"
  by (simp add: tree_use_def lower_def contains_empty)

lemma filter_tree_vocab_empty_query:
  "wf_items d \<Longrightarrow> filter_tree_vocab translate (items d) [] [] (Lst []) = d"
proof (induction d)
  case (OrderedDict xs)
  have d: "distinct (map fst xs)" using OrderedDict.prems by simp
  have ih: "filter_tree_vocab translate (items (snd x)) [] [] (Lst []) = snd x" if "x \<in> set xs" for x
  proof -
    obtain t s where x: "x = (t, s)" by (cases x)
    have "wf_items s" using OrderedDict.prems that x by auto
    then show ?thesis using OrderedDict.IH [of x s] that x by simp
  qed
  have "items (filter_tree_vocab translate xs [] [] (Lst [])) = map (\<lambda>x. x) xs"
    unfolding filter_tree_vocab_distinct [OF d]
    by (simp add: tree_use_empty ih cong: map_cong)
  then show ?case
    by (simp add: TreeVocabItems.expand)
qed

lemma tree_terms_iff:
  "u \<in> set (tree_terms d) \<longleftrightarrow> (\<exists>x \<in> set (items d). u = fst x \<or> u \<in> set (tree_terms (snd x)))"
  by (cases d) auto

lemma filter_tree_vocab_nonempty:
  "wf_items d \<Longrightarrow>
   items (filter_tree_vocab translate (items d) qtitle qtoken (Lst tokens)) \<noteq> [] \<longleftrightarrow>
   (\<exists>u \<in> set (tree_terms d). tree_use translate qtitle qtoken tokens u)"
proof (induction d)
  case (OrderedDict xs)
  let ?F = "\<lambda>ys. filter_tree_vocab translate ys qtitle qtoken (Lst tokens)"
  let ?use = "tree_use translate qtitle qtoken tokens"
  have d: "distinct (map fst xs)" using OrderedDict.prems by simp
  have ih: "items (?F (items (snd x))) \<noteq> [] \<longleftrightarrow> (\<exists>u \<in> set (tree_terms (snd x)). ?use u)"
    if "x \<in> set xs" for x
  proof -
    obtain t s where x: "x = (t, s)" by (cases x)
    have "wf_items s" using OrderedDict.prems that x by auto
    then show ?thesis using OrderedDict.IH [of x s] that x by simp
  qed
  have "items (?F xs) \<noteq> [] \<longleftrightarrow> (\<exists>x \<in> set xs. ?use (fst x) \<or> items (?F (items (snd x))) \<noteq> [])"
    by (simp add: filter_tree_vocab_distinct [OF d] filter_empty_conv)
  also have "\<dots> \<longleftrightarrow> (\<exists>x \<in> set xs. ?use (fst x) \<or> (\<exists>u \<in> set (tree_terms (snd x)). ?use u))"
    using ih by blast
  also have "\<dots> \<longleftrightarrow> (\<exists>u \<in> set (tree_terms (OrderedDict xs)). ?use u)"
    by auto
  finally show ?case by simp
qed

lemma filter_tree_vocab_member:
  assumes "distinct (map fst outer)"
  shows "(t, c) \<in> set (items (filter_tree_vocab translate outer qtitle qtoken (Lst tokens))) \<longleftrightarrow>
     (\<exists>sub. (t, sub) \<in> set outer \<and>
        c = filter_tree_vocab translate (items sub) qtitle qtoken (Lst tokens) \<and>
        (tree_use translate qtitle qtoken tokens t \<or> items c \<noteq> []))"
  unfolding filter_tree_vocab_distinct [OF assms] by force

lemma filter_tree_vocab_map_of:
  assumes "distinct (map fst outer)"
  shows "map_of (items (filter_tree_vocab translate outer qtitle qtoken (Lst tokens))) t = Some c \<longleftrightarrow>
     (\<exists>sub. map_of outer t = Some sub \<and>
        c = filter_tree_vocab translate (items sub) qtitle qtoken (Lst tokens) \<and>
        (tree_use translate qtitle qtoken tokens t \<or> items c \<noteq> []))"
  using filter_tree_vocab_member [OF assms] assms filter_tree_vocab_distinct_keys [OF assms]
  by simp

lemma subtree_at_filtered:
  "wf_items d \<Longrightarrow>
   subtree_at (filter_tree_vocab translate (items d) qtitle qtoken (Lst tokens)) path = Some c \<Longrightarrow>
   \<exists>sub. subtree_at d path = Some sub \<and> wf_items sub \<and>
     c = filter_tree_vocab translate (items sub) qtitle qtoken (Lst tokens)"
proof (induction path arbitrary: d)
  case Nil
  then show ?case by simp
next
  case (Cons t path)
  have d: "distinct (map fst (items d))" using Cons.prems(1) by (rule wf_items_distinct)
  from Cons.prems(2) obtain c' where
    c': "map_of (items (filter_tree_vocab translate (items d) qtitle qtoken (Lst tokens))) t = Some c'"
    and rest: "subtree_at c' path = Some c"
    by (auto split: option.splits)
  from c' obtain s where s: "map_of (items d) t = Some s"
    and c'_eq: "c' = filter_tree_vocab translate (items s) qtitle qtoken (Lst tokens)"
    unfolding filter_tree_vocab_map_of [OF d] by blast
  have "(t, s) \<in> set (items d)" using s by (rule map_of_SomeD)
  then have "wf_items s" using Cons.prems(1) wf_items_child by blast
  from Cons.IH [OF this rest [unfolded c'_eq]] s show ?case by simp
qed

lemma subtree_at_last:
  "subtree_at d path = Some sub \<Longrightarrow> path \<noteq> [] \<Longrightarrow> last path \<in> set (tree_terms d)"
proof (induction path arbitrary: d)
  case Nil
  then show ?case by simp
next
  case (Cons t path)
  from Cons.prems(1) obtain s where s: "map_of (items d) t = Some s"
    and rest: "subtree_at s path = Some sub"
    by (auto split: option.splits)
  have m: "(t, s) \<in> set (items d)" using s by (rule map_of_SomeD)
  show ?case
  proof (cases "path = []")
    case True
    then show ?thesis using m by (subst tree_terms_iff) force
  next
    case False
    from Cons.IH [OF rest False] have "last path \<in> set (tree_terms s)" .
    then show ?thesis using m False by (subst tree_terms_iff) force
  qed
qed

lemma subtree_at_kept:
  "wf_items d \<Longrightarrow> subtree_at d path = Some sub \<Longrightarrow> path \<noteq> [] \<Longrightarrow>
   tree_use translate qtitle qtoken tokens (last path) \<or>
     items (filter_tree_vocab translate (items sub) qtitle qtoken (Lst tokens)) \<noteq> [] \<Longrightarrow>
   subtree_at (filter_tree_vocab translate (items d) qtitle qtoken (Lst tokens)) path =
     Some (filter_tree_vocab translate (items sub) qtitle qtoken (Lst tokens))"
proof (induction path arbitrary: d)
  case Nil
  then show ?case by simp
next
  case (Cons t path)
  let ?F = "\<lambda>x. filter_tree_vocab translate (items x) qtitle qtoken (Lst tokens)"
  have d: "distinct (map fst (items d))" using Cons.prems(1) by (rule wf_items_distinct)
  from Cons.prems(2) obtain s where s: "map_of (items d) t = Some s"
    and rest: "subtree_at s path = Some sub"
    by (auto split: option.splits)
  have "(t, s) \<in> set (items d)" using s by (rule map_of_SomeD)
  then have wfs: "wf_items s" using Cons.prems(1) wf_items_child by blast
  show ?case
  proof (cases "path = []")
    case True
    then have "sub = s" using rest by simp
    then have "map_of (items (?F d)) t = Some (?F s)"
      unfolding filter_tree_vocab_map_of [OF d] using s Cons.prems(4) True by simp
    then show ?thesis using True \<open>sub = s\<close> by simp
  next
    case False
    have k: "tree_use translate qtitle qtoken tokens (last path) \<or> items (?F sub) \<noteq> []"
      using Cons.prems(4) False by simp
    from Cons.IH [OF wfs rest False k] have below: "subtree_at (?F s) path = Some (?F sub)" .
    then have "items (?F s) \<noteq> []"
      using False by (cases path) (auto split: option.splits)
    then have "map_of (items (?F d)) t = Some (?F s)"
      unfolding filter_tree_vocab_map_of [OF d] using s by simp
    then show ?thesis using below by simp
  qed
qed

lemma subtree_at_append:
  "subtree_at d (p @ q) = (case subtree_at d p of None \<Rightarrow> None | Some s \<Rightarrow> subtree_at s q)"
  by (induction p arbitrary: d) (auto split: option.splits)

lemma subtree_at_wf:
  "wf_items d \<Longrightarrow> subtree_at d path = Some sub \<Longrightarrow> wf_items sub"
proof (induction path arbitrary: d)
  case Nil
  then show ?case by simp
next
  case (Cons t path)
  from Cons.prems(2) obtain s where s: "map_of (items d) t = Some s"
    and rest: "subtree_at s path = Some sub"
    by (auto split: option.splits)
  have "(t, s) \<in> set (items d)" using s by (rule map_of_SomeD)
  then have "wf_items s" using Cons.prems(1) wf_items_child by blast
  from Cons.IH [OF this rest] show ?case .
qed

lemma ancestors_kept:
  assumes wf: "wf_items d" and at: "subtree_at d (p @ q) = Some sub" and p: "p \<noteq> []"
    and use: "q \<noteq> [] \<longrightarrow> tree_use translate qtitle qtoken tokens (last q)"
    and use': "q = [] \<longrightarrow> tree_use translate qtitle qtoken tokens (last p)"
  shows "\<exists>s. subtree_at d p = Some s \<and>
     subtree_at (filter_tree_vocab translate (items d) qtitle qtoken (Lst tokens)) p =
       Some (filter_tree_vocab translate (items s) qtitle qtoken (Lst tokens))"
proof -
  from at obtain s where s: "subtree_at d p = Some s" and rest: "subtree_at s q = Some sub"
    by (auto simp: subtree_at_append split: option.splits)
  have wfs: "wf_items s" using wf s by (rule subtree_at_wf)
  have "tree_use translate qtitle qtoken tokens (last p) \<or>
     items (filter_tree_vocab translate (items s) qtitle qtoken (Lst tokens)) \<noteq> []"
  proof (cases "q = []")
    case True
    then show ?thesis using use' by simp
  next
    case False
    then have "last q \<in> set (tree_terms s)" using rest subtree_at_last by blast
    then show ?thesis
      using use False filter_tree_vocab_nonempty [OF wfs, of translate qtitle qtoken tokens]
      by blast
  qed
  from subtree_at_kept [OF wf s p this] s show ?thesis by simp
qed

section \<open>Facts about serializing\<close>

lemma serializesE:
  assumes "serializes reg t"
  obtains s d where "reg t = Some s" and "s () = Inr d"
  using assms by (auto simp: serializes_def split: option.splits sum.splits)

lemma serialize_terms_returns:
  "list_all (serializes reg) ts \<Longrightarrow>
   \<exists>rs. serialize_terms reg ts acc = Inr (acc @ rs) \<and> length rs = length ts"
proof (induction ts arbitrary: acc)
  case Nil
  then show ?case by simp
next
  case (Cons t ts)
  from Cons.prems obtain s d where s: "reg t = Some s" "s () = Inr d"
    by (auto elim: serializesE)
  from Cons.prems have "list_all (serializes reg) ts" by simp
  from Cons.IH [OF this, of "acc @ [JDict d]"] obtain rs where
    "serialize_terms reg ts (acc @ [JDict d]) = Inr ((acc @ [JDict d]) @ rs)"
    and "length rs = length ts" by blast
  then show ?case
    using s by (intro exI [of _ "JDict d # rs"]) (simp add: getMultiAdapter_def)
qed

lemma serialize_terms_Inr:
  "serialize_terms reg ts acc = Inr rs \<Longrightarrow>
   \<exists>rs'. rs = acc @ rs' \<and>
     list_all2 (\<lambda>t r. \<exists>s d. reg t = Some s \<and> s () = Inr d \<and> r = JDict d) ts rs'"
proof (induction ts arbitrary: acc)
  case Nil
  then show ?case by simp
next
  case (Cons t ts)
  from Cons.prems obtain s d where s: "reg t = Some s" "s () = Inr d"
    and rest: "serialize_terms reg ts (acc @ [JDict d]) = Inr rs"
    by (auto simp: getMultiAdapter_def split: option.splits sum.splits)
  from Cons.IH [OF rest] obtain rs' where "rs = (acc @ [JDict d]) @ rs'"
    and "list_all2 (\<lambda>t r. \<exists>s d. reg t = Some s \<and> s () = Inr d \<and> r = JDict d) ts rs'"
    by blast
  then show ?case
    using s by (intro exI [of _ "JDict d # rs'"]) simp
qed

lemma serialize_tree_vocab_Terms:
  "serialize_tree_vocab reg (Terms d) = serialize_tree_loop reg (items d) []"
  by (simp add: iterable_def)

lemma serialize_tree_vocab_Batch:
  "serialize_tree_vocab reg (Batch b) = serialize_tree_loop reg (batch_items b) []"
  by (simp add: iterable_def)

declare serialize_tree_vocab.simps [simp del]

lemma serialize_tree_loop_Inr:
  "serialize_tree_loop reg entries acc = Inr rs \<Longrightarrow>
   \<exists>rs'. rs = acc @ rs' \<and>
     list_all2 (\<lambda>e r. \<exists>s d. reg (fst e) = Some s \<and> s () = Inr d \<and>
        (if items (snd e) = [] then r = JDict d
         else \<exists>children. serialize_tree_vocab reg (Terms (snd e)) = Inr children \<and>
           r = JDict (setitem d ''items'' (JList children)))) entries rs'"
proof (induction entries arbitrary: acc)
  case Nil
  then show ?case by simp
next
  case (Cons e entries)
  obtain t sub where e: "e = (t, sub)" by (cases e)
  let ?R = "\<lambda>e r. \<exists>s d. reg (fst e) = Some s \<and> s () = Inr d \<and>
        (if items (snd e) = [] then r = JDict d
         else \<exists>children. serialize_tree_vocab reg (Terms (snd e)) = Inr children \<and>
           r = JDict (setitem d ''items'' (JList children)))"
  from Cons.prems obtain s d where s: "reg t = Some s" "s () = Inr d"
    by (auto simp: e getMultiAdapter_def split: option.splits sum.splits)
  show ?case
  proof (cases "items sub = []")
    case True
    with Cons.prems s have "serialize_tree_loop reg entries (acc @ [JDict d]) = Inr rs"
      by (simp add: e getMultiAdapter_def)
    from Cons.IH [OF this] obtain rs' where "rs = (acc @ [JDict d]) @ rs'"
      and "list_all2 ?R entries rs'" by blast
    then show ?thesis
      using s True by (intro exI [of _ "JDict d # rs'"]) (simp add: e)
  next
    case False
    with Cons.prems s obtain children where
      ch: "serialize_tree_vocab reg (Terms sub) = Inr children"
      and rest: "serialize_tree_loop reg entries
        (acc @ [JDict (setitem d ''items'' (JList children))]) = Inr rs"
      by (auto simp: e getMultiAdapter_def split: sum.splits)
    from Cons.IH [OF rest] obtain rs' where
      "rs = (acc @ [JDict (setitem d ''items'' (JList children))]) @ rs'"
      and "list_all2 ?R entries rs'" by blast
    then show ?thesis
      using s False ch
      by (intro exI [of _ "JDict (setitem d ''items'' (JList children)) # rs'"]) (simp add: e)
  qed
qed

lemma serialize_tree_loop_returns:
  "\<forall>t \<in> set (tree_terms d). serializes reg t \<Longrightarrow>
   \<exists>rs. serialize_tree_loop reg (items d) acc = Inr (acc @ rs) \<and> length rs = length (items d)"
proof (induction d arbitrary: acc)
  case (OrderedDict xs)
  have sub: "\<exists>rs. serialize_tree_loop reg (items (snd x)) acc = Inr (acc @ rs) \<and>
      length rs = length (items (snd x))" if "x \<in> set xs" for x acc
  proof -
    obtain t s where x: "x = (t, s)" by (cases x)
    have "\<forall>u \<in> set (tree_terms s). serializes reg u"
      using OrderedDict.prems that x by fastforce
    then show ?thesis using OrderedDict.IH [of x s] that x by simp
  qed
  have top: "serializes reg (fst x)" if "x \<in> set xs" for x
    using OrderedDict.prems that by fastforce
  have "\<exists>rs. serialize_tree_loop reg ys acc = Inr (acc @ rs) \<and> length rs = length ys"
    if "set ys \<subseteq> set xs" for ys acc
    using that
  proof (induction ys arbitrary: acc)
    case Nil
    then show ?case by simp
  next
    case (Cons y ys)
    obtain t s where y: "y = (t, s)" by (cases y)
    have in_xs: "y \<in> set xs" using Cons.prems by simp
    from top [OF in_xs] obtain ser d where ser: "reg t = Some ser" "ser () = Inr d"
      by (auto simp: y elim: serializesE)
    from sub [OF in_xs, of "[]"] obtain children where
      ch: "serialize_tree_vocab reg (Terms s) = Inr children"
      by (auto simp: y serialize_tree_vocab_Terms)
    let ?r = "if items s = [] then JDict d else JDict (setitem d ''items'' (JList children))"
    have "set ys \<subseteq> set xs" using Cons.prems by simp
    from Cons.IH [OF this, of "acc @ [?r]"] obtain rs where
      "serialize_tree_loop reg ys (acc @ [?r]) = Inr ((acc @ [?r]) @ rs)"
      and "length rs = length ys" by blast
    then show ?case
      using ser ch by (intro exI [of _ "?r # rs"]) (auto simp: y getMultiAdapter_def)
  qed
  from this [of xs acc] show ?case by simp
qed

lemma serializes_term_adapters: "serializes (term_adapters translate) t"
  by (simp add: serializes_def term_adapters_def SerializeTermToJson_def Let_def)

section \<open>Facts about a call\<close>

lemma call_unbatched_flat:
  assumes "form_b_size req = ''-1''" and "form_title req = [] \<or> form_token req = []"
  shows "call translate reg batch_flat batch_tree req resp vocabulary_id (Vocabulary vocabulary) =
     (resp, map_sum id
        (\<lambda>serialized_terms. JDict [(''@id'', JString vocabulary_id),
           (''items'', JList serialized_terms)])
        (serialize_terms reg
           (flat_loop translate (form_title req) (form_token req) (form_tokens req)
              vocabulary []) []))"
  using assms by (auto simp: call_def safe_text_def Let_def split: sum.splits)

lemma call_unbatched_tree:
  assumes "form_b_size req = ''-1''" and "form_title req = [] \<or> form_token req = []"
  shows "call translate reg batch_flat batch_tree req resp vocabulary_id (TreeVocabulary tree) =
     (resp, map_sum id
        (\<lambda>serialized_terms. JDict [(''@id'', JString vocabulary_id),
           (''items'', JList serialized_terms)])
        (serialize_tree_vocab reg (Terms
           (filter_tree_vocab translate (items tree) (form_title req) (form_token req)
              (form_tokens req)))))"
  using assms by (auto simp: call_def safe_text_def Let_def split: sum.splits)

lemma call_batched_flat:
  assumes "form_b_size req \<noteq> ''-1''" and "form_title req = [] \<or> form_token req = []"
  shows "call translate reg batch_flat batch_tree req resp vocabulary_id (Vocabulary vocabulary) =
     (resp, case batch_flat req
          (flat_loop translate (form_title req) (form_token req) (form_tokens req)
             vocabulary []) of
        Inl e \<Rightarrow> Inl e
      | Inr batch \<Rightarrow>
          map_sum id (batched_result batch) (serialize_terms reg (batch_items batch) []))"
  using assms by (auto simp: call_def safe_text_def Let_def split: sum.splits)

lemma call_batched_tree:
  assumes "form_b_size req \<noteq> ''-1''" and "form_title req = [] \<or> form_token req = []"
  shows "call translate reg batch_flat batch_tree req resp vocabulary_id (TreeVocabulary tree) =
     (resp, case batch_tree req
          (items (filter_tree_vocab translate (items tree) (form_title req) (form_token req)
             (form_tokens req))) of
        Inl e \<Rightarrow> Inl e
      | Inr batch \<Rightarrow>
          map_sum id (batched_result batch) (serialize_tree_vocab reg (Batch batch)))"
  using assms by (auto simp: call_def safe_text_def Let_def split: sum.splits)

lemma call_rejected:
  assumes "form_title req \<noteq> []" and "form_token req \<noteq> []"
  shows "call translate reg batch_flat batch_tree req resp vocabulary_id vocab =
     (resp\<lparr>status := 400\<rparr>, Inr invalid_parameters)"
  using assms by (simp add: call_def safe_text_def)

lemma batched_result_keys:
  "\<exists>d. batched_result batch serialized_terms = JDict d \<and>
     map_of d ''@id'' = Some (JString (canonical_url batch)) \<and>
     map_of d ''items'' = Some (JList serialized_terms) \<and>
     map_of d ''items_total'' = Some (JInt (items_total batch)) \<and>
     map_of d ''batching'' = (if links batch = [] then None else Some (JDict (links batch)))"
  by (simp add: batched_result_def Let_def setitem_def)

section \<open>Rejected requests\<close>

text \<open>
  C1. When the parameters \<^verbatim>\<open>title\<close> and \<^verbatim>\<open>token\<close> are both non-empty, the call sets the
  status of the response to 400 and returns the error body, whatever the vocabulary (flat
  or tree), the registry, the batching and the translation are: nothing is filtered,
  serialized or batched, and no term has a part in the result.
\<close>

theorem title_and_token_rejected:
  assumes "form_title req \<noteq> []" and "form_token req \<noteq> []"
  shows "call translate reg batch_flat batch_tree req resp vocabulary_id vocab =
     (resp\<lparr>status := 400\<rparr>,
      Inr (JDict [(''error'', JDict
        [(''type'', JString ''Invalid parameters''),
         (''message'', JString ''You can not filter by title and token at the same time.'')])]))"
  using assms by (simp add: call_def safe_text_def invalid_parameters_def)

theorem title_and_token_rejected_witness:
  "form_title (sample_request\<lparr>form_title := ''x''\<rparr>) \<noteq> [] \<and>
   form_token (sample_request\<lparr>form_title := ''x''\<rparr>) \<noteq> [] \<and>
   call id (\<lambda>_. None) (\<lambda>_ _. Inl (Raised ''batch'')) (\<lambda>_ _. Inl (Raised ''batch''))
     (sample_request\<lparr>form_title := ''x''\<rparr>) \<lparr>status = 200\<rparr> ''sample''
     (TreeVocabulary sample_tree) =
     (\<lparr>status = 400\<rparr>,
      Inr (JDict [(''error'', JDict
        [(''type'', JString ''Invalid parameters''),
         (''message'', JString ''You can not filter by title and token at the same time.'')])]))"
proof -
  have t: "form_title (sample_request\<lparr>form_title := ''x''\<rparr>) \<noteq> []"
    by (simp add: sample_request_def)
  have k: "form_token (sample_request\<lparr>form_title := ''x''\<rparr>) \<noteq> []"
    by (simp add: sample_request_def)
  show ?thesis
    using t k title_and_token_rejected [OF t k, of id "\<lambda>_. None" "\<lambda>_ _. Inl (Raised ''batch'')"
        "\<lambda>_ _. Inl (Raised ''batch'')" "\<lparr>status = 200\<rparr>" "''sample''" "TreeVocabulary sample_tree"]
    by simp
qed

section \<open>The filters\<close>

text \<open>
  C2. With an empty \<^verbatim>\<open>token\<close> and the tokens \<^verbatim>\<open>apple\<close> and \<^verbatim>\<open>APPLE\<close>, the flat filter
  returns the term with token \<^verbatim>\<open>apple\<close> twice, once for each entry that equals its token
  up to case: the result is not a list in which every input term appears at most once.
\<close>

theorem flat_tokens_repeat_term:
  "flat_loop id [] [] (Lst [''apple'', ''APPLE'']) [apple, banana] [] = [apple, apple]"
  by (simp add: apple_def banana_def truthy_def as_list_def lower_def lower_char_def)

lemma flat_tokens_single_match:
  assumes "truthy qtokens" and "distinct (map lower (as_list qtokens))"
  shows "flat_loop translate qtitle [] qtokens vocabulary [] =
     filter (\<lambda>t. \<exists>item \<in> set (as_list qtokens). lower item = lower (token t)) vocabulary"
proof -
  have one: "length (filter (\<lambda>item. lower item = k) toks) =
      (if \<exists>item \<in> set toks. lower item = k then 1 else 0)"
    if "distinct (map lower toks)" for toks :: "string list" and k
    using that by (induction toks) (auto simp: filter_empty_conv image_iff)
  have "concat (map (\<lambda>t. replicate
        (length (filter (\<lambda>item. lower item = lower (token t)) (as_list qtokens))) t) vocabulary) =
     filter (\<lambda>t. \<exists>item \<in> set (as_list qtokens). lower item = lower (token t)) vocabulary"
    by (induction vocabulary) (simp_all add: one [OF assms(2)])
  then show ?thesis by (simp add: flat_loop_tokens [OF assms(1)])
qed

text \<open>
  C3, as stated, fails: for a term without a title the filters do not compare with the
  token. The term \<^verbatim>\<open>fruit\<close> has no title; the query title \<^verbatim>\<open>fru\<close> is a part of its token,
  yet neither the flat filter nor the tree filter keeps the term.
\<close>

theorem untitled_term_title_counterexample:
  "spec_title_match id ''fru'' fruit \<and>
   filter (spec_title_match id ''fru'') [fruit] = [fruit] \<and>
   flat_loop id ''fru'' [] (Lst []) [fruit] [] = [] \<and>
   tree_use id ''fru'' [] [] fruit = False \<and>
   filter_tree_vocab id [(fruit, OrderedDict [])] ''fru'' [] (Lst []) = OrderedDict []"
  by (simp add: spec_title_match_def spec_titleOf_def ITitledTokenizedTerm_providedBy_def
      fruit_def truthy_def as_list_def lower_def lower_char_def term_title_def safe_text_def
      tree_use_def filter_tree_vocab.simps)

text \<open>
  C3, amended. In the title branch (no \<^verbatim>\<open>token\<close>, no \<^verbatim>\<open>tokens\<close>) the flat filter keeps
  exactly the terms for which the lowercased query title is a part of the lowercased
  translation of \<^verbatim>\<open>term_title\<close>, and the tree filter matches a term itself by the same
  test; \<^verbatim>\<open>term_title\<close> is the title of a term that has one, which is what the specification
  compares with too, and the empty string for a term without a title.
\<close>

theorem title_branch_compares_title_attribute:
  "flat_loop translate qtitle [] (Lst []) vocabulary [] =
     filter (\<lambda>t. contains (lower (translate (term_title t))) (lower qtitle)) vocabulary \<and>
   tree_use translate qtitle [] [] t =
     contains (lower (translate (term_title t))) (lower qtitle) \<and>
   term_title \<lparr>token = k, title = Some s\<rparr> = s \<and>
   spec_titleOf \<lparr>token = k, title = Some s\<rparr> = s \<and>
   term_title \<lparr>token = k, title = None\<rparr> = []"
proof -
  have "\<not> truthy (Lst [])" by (simp add: truthy_def)
  then have "flat_loop translate qtitle [] (Lst []) vocabulary [] =
     [] @ filter (\<lambda>t. contains (lower (translate (term_title t))) (lower qtitle)) vocabulary"
    by (rule flat_loop_title)
  then show ?thesis
    by (simp add: tree_use_def term_title_def safe_text_def spec_titleOf_def
        ITitledTokenizedTerm_providedBy_def)
qed

theorem title_branch_compares_title_attribute_witness:
  "flat_loop id ''an'' [] (Lst []) [apple, banana, veg] [] = [banana] \<and>
   tree_use id ''an'' [] [] banana \<and>
   term_title banana = ''Banana'' \<and> term_title veg = []"
  using title_branch_compares_title_attribute [of id "''an''" "[apple, banana, veg]" banana]
    title_branch_compares_title_attribute [of id "''an''" "[]" veg "''veg''" "''Banana''"]
  by (simp add: apple_def banana_def veg_def lower_def lower_char_def term_title_def
      safe_text_def)

text \<open>
  C4. For the empty query (no title, no token, no tokens) the flat filter returns the
  vocabulary as it is, and the tree filter returns the tree as it is: same terms, same
  order, same nesting. The tree is any tree whose keys are pairwise different at every
  level.
\<close>

theorem empty_query_identity:
  assumes "wf_items tree"
  shows "flat_loop translate [] [] (Lst []) vocabulary [] = vocabulary \<and>
     flat_loop translate [] [] (Str []) vocabulary [] = vocabulary \<and>
     filter_tree_vocab translate (items tree) [] [] (Lst []) = tree"
proof -
  have flat: "flat_loop translate [] [] qtokens vocabulary [] = vocabulary"
    if "\<not> truthy qtokens" for qtokens
  proof -
    from that have "flat_loop translate [] [] qtokens vocabulary [] =
       [] @ filter (\<lambda>t. contains (lower (translate (term_title t))) (lower [])) vocabulary"
      by (rule flat_loop_title)
    then show ?thesis by (simp add: lower_def contains_empty)
  qed
  have "\<not> truthy (Lst [])" and "\<not> truthy (Str [])"
    by (simp_all add: truthy_def)
  then show ?thesis
    using flat filter_tree_vocab_empty_query [OF assms] by simp
qed

lemma wf_sample_tree: "wf_items sample_tree"
  by (simp add: sample_tree_def fruit_def apple_def banana_def veg_def carrot_def)

theorem empty_query_identity_witness:
  "wf_items sample_tree \<and>
   flat_loop id [] [] (Lst []) [apple, banana] [] = [apple, banana] \<and>
   flat_loop id [] [] (Str []) [apple, banana] [] = [apple, banana] \<and>
   filter_tree_vocab id (items sample_tree) [] [] (Lst []) = sample_tree"
  using wf_sample_tree empty_query_identity [OF wf_sample_tree, of id "[apple, banana]"]
  by simp

text \<open>
  A \<^verbatim>\<open>tokens\<close> parameter that is the empty string is not the empty query for the tree
  filter: it becomes the list that holds the empty string before it is tested, and then
  only a term with an empty token passes. The flat filter tests the parameter first and
  takes the title branch.
\<close>

lemma tree_filter_empty_string_tokens:
  "filter_tree_vocab id (items sample_tree) [] [] (Str []) = OrderedDict [] \<and>
   flat_loop id [] [] (Str []) [apple, banana] [] = [apple, banana]"
  by (simp add: sample_tree_def fruit_def apple_def banana_def veg_def carrot_def
      filter_tree_vocab.simps tree_use_def as_list_def truthy_def lower_def Let_def
      contains_empty)

text \<open>
  C5. The flat filter is not idempotent: with the tokens \<^verbatim>\<open>apple\<close> and \<^verbatim>\<open>APPLE\<close> it turns
  one term into two and, applied to its own output, the two into four.
\<close>

theorem flat_filter_not_idempotent:
  "flat_loop id [] [] (Lst [''apple'', ''APPLE'']) [apple] [] = [apple, apple] \<and>
   flat_loop id [] [] (Lst [''apple'', ''APPLE''])
     (flat_loop id [] [] (Lst [''apple'', ''APPLE'']) [apple] []) [] =
     [apple, apple, apple, apple]"
  by (simp add: apple_def truthy_def as_list_def lower_def lower_char_def)

lemma flat_token_filter_idempotent:
  assumes "qtoken \<noteq> []"
  shows "flat_loop translate qtitle qtoken qtokens
     (flat_loop translate qtitle qtoken qtokens vocabulary []) [] =
     flat_loop translate qtitle qtoken qtokens vocabulary []"
  by (simp add: flat_loop_token [OF assms])

lemma flat_title_filter_idempotent:
  assumes "\<not> truthy qtokens"
  shows "flat_loop translate qtitle [] qtokens
     (flat_loop translate qtitle [] qtokens vocabulary []) [] =
     flat_loop translate qtitle [] qtokens vocabulary []"
  by (simp add: flat_loop_title [OF assms])

lemma tree_filter_idempotent:
  assumes "wf_items tree"
  shows "filter_tree_vocab translate
     (items (filter_tree_vocab translate (items tree) qtitle qtoken qtokens))
     qtitle qtoken qtokens =
     filter_tree_vocab translate (items tree) qtitle qtoken qtokens"
  using filter_tree_vocab_idem [OF assms, of translate qtitle qtoken "as_list qtokens"]
  by (simp add: filter_tree_vocab_Lst [of _ _ _ _ qtokens])

section \<open>Pruning a tree\<close>

text \<open>
  C6. On a tree whose keys are pairwise different at every level, the tree filter keeps
  an entry, with its filtered children, exactly when its term
  passes the filter itself or its filtered children are not empty. So when the term at the
  end of a path passes, every mapping on the way to it is found in the result under the
  same path, holding the filtered children; and an entry in whose subtree no term passes
  is not a key of the result.
\<close>

theorem tree_filter_keeps_matches_and_ancestors:
  assumes "wf_items tree"
  shows "items (filter_tree_vocab translate (items tree) qtitle qtoken qtokens) =
       map (\<lambda>x. (fst x, filter_tree_vocab translate (items (snd x)) qtitle qtoken qtokens))
         (filter (\<lambda>x. tree_use translate qtitle qtoken (as_list qtokens) (fst x) \<or>
            items (filter_tree_vocab translate (items (snd x)) qtitle qtoken qtokens) \<noteq> [])
          (items tree)) \<and>
     (\<forall>p q sub. subtree_at tree (p @ q) = Some sub \<and> p \<noteq> [] \<and>
          tree_use translate qtitle qtoken (as_list qtokens) (last (p @ q)) \<longrightarrow>
        (\<exists>s. subtree_at tree p = Some s \<and>
          subtree_at (filter_tree_vocab translate (items tree) qtitle qtoken qtokens) p =
            Some (filter_tree_vocab translate (items s) qtitle qtoken qtokens))) \<and>
     (\<forall>t sub. (t, sub) \<in> set (items tree) \<and>
          (\<forall>u \<in> set (t # tree_terms sub). \<not> tree_use translate qtitle qtoken (as_list qtokens) u) \<longrightarrow>
        t \<notin> fst ` set (items (filter_tree_vocab translate (items tree) qtitle qtoken qtokens)))"
proof -
  let ?toks = "as_list qtokens"
  let ?F = "\<lambda>d. filter_tree_vocab translate (items d) qtitle qtoken (Lst ?toks)"
  let ?use = "tree_use translate qtitle qtoken ?toks"
  have F: "filter_tree_vocab translate outer qtitle qtoken qtokens =
      filter_tree_vocab translate outer qtitle qtoken (Lst ?toks)" for outer
    by (rule filter_tree_vocab_Lst)
  have d: "distinct (map fst (items tree))"
    using assms by (rule wf_items_distinct)
  have 1: "items (?F tree) = map (\<lambda>x. (fst x, ?F (snd x)))
      (filter (\<lambda>x. ?use (fst x) \<or> items (?F (snd x)) \<noteq> []) (items tree))"
    by (rule filter_tree_vocab_distinct [OF d])
  have 2: "\<exists>s. subtree_at tree p = Some s \<and> subtree_at (?F tree) p = Some (?F s)"
    if "subtree_at tree (p @ q) = Some sub" and "p \<noteq> []" and "?use (last (p @ q))"
    for p q sub
    using ancestors_kept [OF assms that(1) that(2), of translate qtitle qtoken ?toks] that(3)
    by (cases "q = []") auto
  have 3: "t \<notin> fst ` set (items (?F tree))"
    if m: "(t, sub) \<in> set (items tree)" and no: "\<forall>u \<in> set (t # tree_terms sub). \<not> ?use u"
    for t sub
  proof
    assume "t \<in> fst ` set (items (?F tree))"
    then obtain c where "(t, c) \<in> set (items (?F tree))" by auto
    then obtain sub' where m': "(t, sub') \<in> set (items tree)" and c: "c = ?F sub'"
      and k: "?use t \<or> items c \<noteq> []"
      unfolding filter_tree_vocab_member [OF d] by blast
    have "sub' = sub" using m m' d by (meson eq_key_imp_eq_value)
    have "wf_items sub" using assms m by (rule wf_items_child)
    from filter_tree_vocab_nonempty [OF this, of translate qtitle qtoken ?toks] no
    have "items (?F sub) = []" by auto
    then show False using k c \<open>sub' = sub\<close> no by simp
  qed
  show ?thesis
    unfolding F using 1 2 3 by blast
qed

theorem tree_filter_keeps_matches_and_ancestors_witness:
  "wf_items sample_tree \<and>
   items (filter_tree_vocab id (items sample_tree) [] ''Apple'' (Lst [])) =
     [(fruit, OrderedDict [(apple, OrderedDict [])])] \<and>
   subtree_at sample_tree ([fruit] @ [apple]) = Some (OrderedDict []) \<and>
   tree_use id [] ''Apple'' [] apple \<and> \<not> tree_use id [] ''Apple'' [] fruit \<and>
   subtree_at (filter_tree_vocab id (items sample_tree) [] ''Apple'' (Lst [])) [fruit] =
     Some (OrderedDict [(apple, OrderedDict [])]) \<and>
   (veg, OrderedDict [(carrot, OrderedDict [])]) \<in> set (items sample_tree) \<and>
   veg \<notin> fst ` set (items (filter_tree_vocab id (items sample_tree) [] ''Apple'' (Lst [])))"
  using wf_sample_tree
    tree_filter_keeps_matches_and_ancestors [OF wf_sample_tree, of id "[]" "''Apple''" "Lst []"]
  by (simp add: sample_tree_def fruit_def apple_def banana_def veg_def carrot_def
      filter_tree_vocab.simps tree_use_def as_list_def setitem_def lower_def lower_char_def
      Let_def)

text \<open>
  C7. On a tree whose keys are pairwise different at every level, every level of the
  filtered tree is the filtered image of the level of the input tree under the same path,
  and its keys are a subsequence of the keys of that level: the terms that stay keep the
  order they have in the input.
\<close>

theorem tree_filter_preserves_order:
  assumes "wf_items tree"
    and "subtree_at (filter_tree_vocab translate (items tree) qtitle qtoken qtokens) path =
      Some level"
  shows "\<exists>sub. subtree_at tree path = Some sub \<and>
     level = filter_tree_vocab translate (items sub) qtitle qtoken qtokens \<and>
     distinct (map fst (items sub)) \<and>
     subseq (map fst (items level)) (map fst (items sub))"
proof -
  let ?toks = "as_list qtokens"
  have F: "filter_tree_vocab translate outer qtitle qtoken qtokens =
      filter_tree_vocab translate outer qtitle qtoken (Lst ?toks)" for outer
    by (rule filter_tree_vocab_Lst)
  from subtree_at_filtered [OF assms(1) assms(2) [unfolded F]]
  obtain sub where sub: "subtree_at tree path = Some sub" and wf: "wf_items sub"
    and level: "level = filter_tree_vocab translate (items sub) qtitle qtoken (Lst ?toks)"
    by blast
  have d: "distinct (map fst (items sub))" using wf by (rule wf_items_distinct)
  have "subseq (map fst (items level)) (map fst (items sub))"
    unfolding level by (rule filter_tree_vocab_subseq [OF d])
  then show ?thesis
    unfolding F using sub level d by blast
qed

theorem tree_filter_preserves_order_witness:
  "wf_items sample_tree \<and>
   subtree_at (filter_tree_vocab id (items sample_tree) [] [] (Lst [''banana'', ''APPLE'']))
     [fruit] = Some (OrderedDict [(apple, OrderedDict []), (banana, OrderedDict [])]) \<and>
   subtree_at sample_tree [fruit] =
     Some (OrderedDict [(apple, OrderedDict []), (banana, OrderedDict [])]) \<and>
   subseq [apple, banana] [apple, banana]"
proof -
  have at: "subtree_at (filter_tree_vocab id (items sample_tree) [] []
      (Lst [''banana'', ''APPLE''])) [fruit] =
      Some (OrderedDict [(apple, OrderedDict []), (banana, OrderedDict [])])"
    by (simp add: sample_tree_def fruit_def apple_def banana_def veg_def carrot_def
      filter_tree_vocab.simps tree_use_def as_list_def setitem_def lower_def lower_char_def
      Let_def)
  have sub: "subtree_at sample_tree [fruit] =
      Some (OrderedDict [(apple, OrderedDict []), (banana, OrderedDict [])])"
    by (simp add: sample_tree_def)
  show ?thesis
    using wf_sample_tree at sub tree_filter_preserves_order [OF wf_sample_tree at]
    by simp
qed

section \<open>The result of a call\<close>

text \<open>
  C8. When \<^verbatim>\<open>b_size\<close> is \<^verbatim>\<open>-1\<close>, a request that is not rejected is answered without
  batching, for a flat vocabulary and for a tree alike: the result is made of the id of
  the vocabulary and the serialization of all the filtered terms, whatever the batching
  is, and it is returned whenever every term has a serializer that returns. No result of
  such a request has a key \<^verbatim>\<open>items_total\<close> or \<^verbatim>\<open>batching\<close>.
\<close>

theorem unbatched_result:
  fixes translate reg req vocabulary tree
  defines "terms \<equiv> flat_loop translate (form_title req) (form_token req) (form_tokens req)
      vocabulary []"
    and "filtered \<equiv> filter_tree_vocab translate (items tree) (form_title req) (form_token req)
      (form_tokens req)"
  assumes "form_b_size req = ''-1''"
  shows "(form_title req = [] \<or> form_token req = [] \<longrightarrow>
       call translate reg batch_flat batch_tree req resp vocabulary_id (Vocabulary vocabulary) =
         (resp, map_sum id
            (\<lambda>serialized_terms. JDict [(''@id'', JString vocabulary_id),
               (''items'', JList serialized_terms)])
            (serialize_terms reg terms [])) \<and>
       call translate reg batch_flat batch_tree req resp vocabulary_id (TreeVocabulary tree) =
         (resp, map_sum id
            (\<lambda>serialized_terms. JDict [(''@id'', JString vocabulary_id),
               (''items'', JList serialized_terms)])
            (serialize_tree_vocab reg (Terms filtered))) \<and>
       (list_all (serializes reg) terms \<longrightarrow>
          (\<exists>serialized_terms. serialize_terms reg terms [] = Inr serialized_terms \<and>
             length serialized_terms = length terms)) \<and>
       ((\<forall>t \<in> set (tree_terms filtered). serializes reg t) \<longrightarrow>
          (\<exists>serialized_terms.
             serialize_tree_vocab reg (Terms filtered) = Inr serialized_terms \<and>
             length serialized_terms = length (items filtered)))) \<and>
     (\<forall>d. snd (call translate reg batch_flat batch_tree req resp vocabulary_id vocab) =
          Inr (JDict d) \<longrightarrow>
        ''items_total'' \<notin> fst ` set d \<and> ''batching'' \<notin> fst ` set d)"
proof -
  have flat_returns: "\<exists>serialized_terms. serialize_terms reg terms [] = Inr serialized_terms \<and>
      length serialized_terms = length terms" if "list_all (serializes reg) terms"
    using serialize_terms_returns [OF that, of "[]"] by simp
  have tree_returns: "\<exists>serialized_terms.
      serialize_tree_vocab reg (Terms filtered) = Inr serialized_terms \<and>
      length serialized_terms = length (items filtered)"
    if "\<forall>t \<in> set (tree_terms filtered). serializes reg t"
    using serialize_tree_loop_returns [OF that, of "[]"]
    by (simp add: serialize_tree_vocab_Terms)
  have keys: "''items_total'' \<notin> fst ` set d \<and> ''batching'' \<notin> fst ` set d"
    if "snd (call translate reg batch_flat batch_tree req resp vocabulary_id vocab) =
      Inr (JDict d)" for d
  proof (cases "form_title req = [] \<or> form_token req = []")
    case True
    show ?thesis
    proof (cases vocab)
      case (Vocabulary v)
      with that show ?thesis
        unfolding Vocabulary call_unbatched_flat [OF assms(3) True]
        by (auto simp: map_sum_def split: sum.splits)
    next
      case (TreeVocabulary d')
      with that show ?thesis
        unfolding TreeVocabulary call_unbatched_tree [OF assms(3) True]
        by (auto simp: map_sum_def split: sum.splits)
    qed
  next
    case False
    then have "form_title req \<noteq> []" and "form_token req \<noteq> []" by simp_all
    from call_rejected [OF this] that show ?thesis
      by (auto simp: invalid_parameters_def)
  qed
  show ?thesis
    unfolding terms_def [symmetric] filtered_def [symmetric]
    using call_unbatched_flat [OF assms(3), of translate reg batch_flat batch_tree resp
        vocabulary_id vocabulary]
      call_unbatched_tree [OF assms(3), of translate reg batch_flat batch_tree resp
        vocabulary_id tree]
      flat_returns tree_returns keys
    unfolding terms_def [symmetric] filtered_def [symmetric]
    by blast
qed

lemma lower_Nil: "lower [] = []"
  by (simp add: lower_def)

lemma lower_an: "lower ''an'' = ''an''"
  by (simp add: lower_def lower_char_def)

lemma lower_sample_titles:
  "lower ''Apple'' = ''apple''" "lower ''Banana'' = ''banana''" "lower ''Carrot'' = ''carrot''"
  by (simp_all add: lower_def lower_char_def)

lemma sample_term_titles:
  "term_title fruit = []" "term_title veg = []" "term_title apple = ''Apple''"
  "term_title banana = ''Banana''" "term_title carrot = ''Carrot''"
  by (simp_all add: term_title_def safe_text_def fruit_def veg_def apple_def banana_def
      carrot_def)

lemma sample_title_matches:
  "\<not> tree_use id ''an'' [] [] fruit" "\<not> tree_use id ''an'' [] [] veg"
  "\<not> tree_use id ''an'' [] [] apple" "tree_use id ''an'' [] [] banana"
  "\<not> tree_use id ''an'' [] [] carrot"
  by (simp_all add: tree_use_def sample_term_titles lower_an lower_sample_titles lower_Nil)

lemma sample_tree_filtered:
  "filter_tree_vocab id (items sample_tree) ''an'' [] (Lst []) =
     OrderedDict [(fruit, OrderedDict [(banana, OrderedDict [])])]"
  by (simp add: sample_tree_def filter_tree_vocab.simps as_list_def Let_def
      sample_title_matches setitem_def)

lemma sample_flat_filtered:
  "flat_loop id ''an'' [] (Lst []) [apple, banana] [] = [banana]"
  by (simp add: truthy_def sample_term_titles lower_an lower_sample_titles)

lemma sample_serialized:
  "serialize_terms (term_adapters id) [banana] [] =
     Inr [JDict [(''token'', JString ''banana''), (''title'', JString ''Banana'')]]"
  "serialize_tree_loop (term_adapters id) [(fruit, OrderedDict [(banana, OrderedDict [])])] [] =
     Inr [JDict [(''token'', JString ''fruit''), (''title'', JString ''fruit''),
       (''items'', JList
          [JDict [(''token'', JString ''banana''), (''title'', JString ''Banana'')]])]]"
  by (simp_all add: getMultiAdapter_def term_adapters_def SerializeTermToJson_def Let_def
      ITitledTokenizedTerm_providedBy_def banana_def fruit_def serialize_tree_vocab_Terms
      setitem_def)

theorem unbatched_result_witness:
  "form_b_size (title_request ''an'' ''-1'') = ''-1'' \<and>
   call id (term_adapters id) (first_page 1) (first_page 1) (title_request ''an'' ''-1'')
     \<lparr>status = 200\<rparr> ''sample'' (Vocabulary [apple, banana]) =
     (\<lparr>status = 200\<rparr>, Inr (JDict [(''@id'', JString ''sample''), (''items'', JList
        [JDict [(''token'', JString ''banana''), (''title'', JString ''Banana'')]])])) \<and>
   call id (term_adapters id) (first_page 1) (first_page 1) (title_request ''an'' ''-1'')
     \<lparr>status = 200\<rparr> ''sample'' (TreeVocabulary sample_tree) =
     (\<lparr>status = 200\<rparr>, Inr (JDict [(''@id'', JString ''sample''), (''items'', JList
        [JDict [(''token'', JString ''fruit''), (''title'', JString ''fruit''),
           (''items'', JList
              [JDict [(''token'', JString ''banana''), (''title'', JString ''Banana'')]])]])]))"
proof -
  have b: "form_b_size (title_request ''an'' ''-1'') = ''-1''"
    by (simp add: title_request_def)
  have q: "form_title (title_request ''an'' ''-1'') = ''an''"
    "form_token (title_request ''an'' ''-1'') = []"
    "form_tokens (title_request ''an'' ''-1'') = Lst []"
    by (simp_all add: title_request_def)
  from unbatched_result [OF b, of id "(term_adapters id)" "first_page 1" "first_page 1"
      "\<lparr>status = 200\<rparr>" "''sample''" "[apple, banana]" sample_tree]
  show ?thesis
    by (simp add: b q sample_flat_filtered sample_tree_filtered sample_serialized
        serialize_tree_vocab_Terms
        del: flat_loop.simps serialize_terms.simps serialize_tree_loop.simps)
qed

text \<open>
  C9. A batched call on a tree hands the top-level entries of the filtered tree, and nothing
  else, to the batching, and serializes the entries of the page that comes back. The
  record of an entry is the record of its term; when the children of the entry are not
  empty, it gets the key \<^verbatim>\<open>items\<close> with the list of the records of all the children, made
  in the same way and in the order of the children. The serialization returns whenever
  every term in the page has a serializer that returns.
\<close>

theorem batched_tree_result:
  fixes translate reg req tree
  defines "filtered \<equiv> filter_tree_vocab translate (items tree) (form_title req) (form_token req)
      (form_tokens req)"
  assumes "form_b_size req \<noteq> ''-1''" and "form_title req = [] \<or> form_token req = []"
  shows "call translate reg batch_flat batch_tree req resp vocabulary_id (TreeVocabulary tree) =
       (resp, case batch_tree req (items filtered) of
          Inl e \<Rightarrow> Inl e
        | Inr batch \<Rightarrow>
            map_sum id (batched_result batch)
              (serialize_tree_loop reg (batch_items batch) [])) \<and>
     (\<forall>entries serialized. serialize_tree_loop reg entries [] = Inr serialized \<longrightarrow>
        list_all2 (\<lambda>e r. \<exists>s d. reg (fst e) = Some s \<and> s () = Inr d \<and>
           (if items (snd e) = [] then r = JDict d
            else \<exists>children. serialize_tree_loop reg (items (snd e)) [] = Inr children \<and>
              r = JDict (setitem d ''items'' (JList children)))) entries serialized) \<and>
     (\<forall>batch. batch_tree req (items filtered) = Inr batch \<and>
          (\<forall>t \<in> set (tree_terms (OrderedDict (batch_items batch))). serializes reg t) \<longrightarrow>
        (\<exists>serialized. serialize_tree_loop reg (batch_items batch) [] = Inr serialized \<and>
           length serialized = length (batch_items batch)))"
proof -
  have 1: "call translate reg batch_flat batch_tree req resp vocabulary_id
      (TreeVocabulary tree) =
       (resp, case batch_tree req (items filtered) of
          Inl e \<Rightarrow> Inl e
        | Inr batch \<Rightarrow>
            map_sum id (batched_result batch)
              (serialize_tree_loop reg (batch_items batch) []))"
    unfolding filtered_def call_batched_tree [OF assms(2) assms(3)]
    by (auto simp: serialize_tree_vocab_Batch split: sum.splits)
  have 2: "list_all2 (\<lambda>e r. \<exists>s d. reg (fst e) = Some s \<and> s () = Inr d \<and>
           (if items (snd e) = [] then r = JDict d
            else \<exists>children. serialize_tree_loop reg (items (snd e)) [] = Inr children \<and>
              r = JDict (setitem d ''items'' (JList children)))) entries serialized"
    if "serialize_tree_loop reg entries [] = Inr serialized" for entries serialized
    using serialize_tree_loop_Inr [OF that, unfolded serialize_tree_vocab_Terms]
    by (auto elim!: list_all2_mono)
  have 3: "\<exists>serialized. serialize_tree_loop reg (batch_items batch) [] = Inr serialized \<and>
           length serialized = length (batch_items batch)"
    if "\<forall>t \<in> set (tree_terms (OrderedDict (batch_items batch))). serializes reg t"
    for batch :: "(SimpleTerm \<times> TreeVocabItems) HypermediaBatch"
    using serialize_tree_loop_returns [OF that, of "[]"] by simp
  show ?thesis
    using 1 2 3 by blast
qed

lemma lower_a: "lower ''a'' = ''a''"
  by (simp add: lower_def lower_char_def)

lemma sample_terms_distinct: "apple \<noteq> banana" "fruit \<noteq> veg"
  by (simp_all add: apple_def banana_def fruit_def veg_def)

lemma sample_tree_filtered_a:
  "filter_tree_vocab id (items sample_tree) ''a'' [] (Lst []) = sample_tree"
  by (simp add: sample_tree_def filter_tree_vocab.simps as_list_def Let_def tree_use_def
      sample_term_titles lower_a lower_sample_titles lower_Nil setitem_def
      sample_terms_distinct)

lemma sample_page_serialized:
  "serialize_tree_loop (term_adapters id)
     [(fruit, OrderedDict [(apple, OrderedDict []), (banana, OrderedDict [])])] [] =
     Inr [JDict [(''token'', JString ''fruit''), (''title'', JString ''fruit''),
       (''items'', JList
          [JDict [(''token'', JString ''apple''), (''title'', JString ''Apple'')],
           JDict [(''token'', JString ''banana''), (''title'', JString ''Banana'')]])]]"
  by (simp add: getMultiAdapter_def term_adapters_def SerializeTermToJson_def Let_def
      ITitledTokenizedTerm_providedBy_def apple_def banana_def fruit_def
      serialize_tree_vocab_Terms setitem_def)

theorem batched_tree_result_witness:
  "form_b_size (title_request ''a'' []) \<noteq> ''-1'' \<and>
   (form_title (title_request ''a'' []) = [] \<or> form_token (title_request ''a'' []) = []) \<and>
   call id (term_adapters id) (first_page 1) (first_page 1) (title_request ''a'' [])
     \<lparr>status = 200\<rparr> ''sample'' (TreeVocabulary sample_tree) =
     (\<lparr>status = 200\<rparr>, Inr (JDict
        [(''@id'', JString ''http://nohost/@vocabularies/sample''),
         (''items'', JList
            [JDict [(''token'', JString ''fruit''), (''title'', JString ''fruit''),
               (''items'', JList
                  [JDict [(''token'', JString ''apple''), (''title'', JString ''Apple'')],
                   JDict [(''token'', JString ''banana''), (''title'', JString ''Banana'')]])]]),
         (''items_total'', JInt 2),
         (''batching'', JDict [(''next'', JString ''http://nohost/next'')])]))"
proof -
  have b: "form_b_size (title_request ''a'' []) \<noteq> ''-1''"
    by (simp add: title_request_def)
  have c: "form_title (title_request ''a'' []) = [] \<or> form_token (title_request ''a'' []) = []"
    by (simp add: title_request_def)
  have q: "form_title (title_request ''a'' []) = ''a''"
    "form_token (title_request ''a'' []) = []"
    "form_tokens (title_request ''a'' []) = Lst []"
    by (simp_all add: title_request_def)
  have page: "first_page (Suc 0) (title_request ''a'' []) (items sample_tree) =
      Inr \<lparr>batch_items = [(fruit, OrderedDict [(apple, OrderedDict []), (banana, OrderedDict [])])],
        canonical_url = ''http://nohost/@vocabularies/sample'', items_total = 2,
        links = [(''next'', JString ''http://nohost/next'')]\<rparr>"
    by (simp add: first_page_def sample_tree_def)
  from batched_tree_result [OF b c, of id "term_adapters id" "first_page 1" "first_page 1"
      "\<lparr>status = 200\<rparr>" "''sample''" sample_tree]
  show ?thesis
    using b c
    by (simp add: q sample_tree_filtered_a page sample_page_serialized batched_result_def
        Let_def setitem_def del: serialize_tree_loop.simps)
qed

text \<open>
  C10. When \<^verbatim>\<open>b_size\<close> is anything but \<^verbatim>\<open>-1\<close>, the empty string of a missing parameter
  included, a request that is not rejected is answered through the batching, for a flat
  vocabulary and for a tree alike: an exception of the batching is the outcome of the
  call, and every result that is returned is a record with a key \<^verbatim>\<open>items_total\<close>. The
  result is returned, with the items of the page and the total of the batch, whenever the
  batching returns and every term of the page has a serializer that returns.
\<close>

theorem batched_result_has_items_total:
  fixes translate reg req vocabulary tree
  defines "terms \<equiv> flat_loop translate (form_title req) (form_token req) (form_tokens req)
      vocabulary []"
    and "filtered \<equiv> filter_tree_vocab translate (items tree) (form_title req) (form_token req)
      (form_tokens req)"
  assumes "form_b_size req \<noteq> ''-1''" and "form_title req = [] \<or> form_token req = []"
  shows "(\<forall>body. snd (call translate reg batch_flat batch_tree req resp vocabulary_id vocab) =
          Inr body \<longrightarrow>
        (\<exists>d n. body = JDict d \<and> map_of d ''items_total'' = Some (JInt n))) \<and>
     (\<forall>e. batch_flat req terms = Inl e \<longrightarrow>
        call translate reg batch_flat batch_tree req resp vocabulary_id (Vocabulary vocabulary) =
          (resp, Inl e)) \<and>
     (\<forall>e. batch_tree req (items filtered) = Inl e \<longrightarrow>
        call translate reg batch_flat batch_tree req resp vocabulary_id (TreeVocabulary tree) =
          (resp, Inl e)) \<and>
     (\<forall>batch. batch_flat req terms = Inr batch \<and>
          list_all (serializes reg) (batch_items batch) \<longrightarrow>
        (\<exists>serialized d.
           call translate reg batch_flat batch_tree req resp vocabulary_id
             (Vocabulary vocabulary) = (resp, Inr (JDict d)) \<and>
           map_of d ''items'' = Some (JList serialized) \<and>
           length serialized = length (batch_items batch) \<and>
           map_of d ''items_total'' = Some (JInt (items_total batch)))) \<and>
     (\<forall>batch. batch_tree req (items filtered) = Inr batch \<and>
          (\<forall>t \<in> set (tree_terms (OrderedDict (batch_items batch))). serializes reg t) \<longrightarrow>
        (\<exists>serialized d.
           call translate reg batch_flat batch_tree req resp vocabulary_id
             (TreeVocabulary tree) = (resp, Inr (JDict d)) \<and>
           map_of d ''items'' = Some (JList serialized) \<and>
           length serialized = length (batch_items batch) \<and>
           map_of d ''items_total'' = Some (JInt (items_total batch))))"
proof -
  note flat = call_batched_flat [OF assms(3) assms(4), of translate reg batch_flat batch_tree
      resp vocabulary_id vocabulary, folded terms_def]
  note tree = call_batched_tree [OF assms(3) assms(4), of translate reg batch_flat batch_tree
      resp vocabulary_id tree, folded filtered_def]
  have 1: "\<exists>d n. body = JDict d \<and> map_of d ''items_total'' = Some (JInt n)"
    if "snd (call translate reg batch_flat batch_tree req resp vocabulary_id vocab) = Inr body"
    for body
  proof (cases vocab)
    case (Vocabulary v)
    from that obtain batch :: "SimpleTerm HypermediaBatch" and serialized
      where "body = batched_result batch serialized"
      unfolding Vocabulary call_batched_flat [OF assms(3) assms(4)]
      by (auto simp: map_sum_def split: sum.splits)
    then show ?thesis using batched_result_keys [of batch serialized] by auto
  next
    case (TreeVocabulary d')
    from that obtain batch :: "(SimpleTerm \<times> TreeVocabItems) HypermediaBatch" and serialized
      where "body = batched_result batch serialized"
      unfolding TreeVocabulary call_batched_tree [OF assms(3) assms(4)]
      by (auto simp: map_sum_def split: sum.splits)
    then show ?thesis using batched_result_keys [of batch serialized] by auto
  qed
  have 2: "call translate reg batch_flat batch_tree req resp vocabulary_id
      (Vocabulary vocabulary) = (resp, Inl e)" if "batch_flat req terms = Inl e" for e
    using that by (simp add: flat)
  have 3: "call translate reg batch_flat batch_tree req resp vocabulary_id
      (TreeVocabulary tree) = (resp, Inl e)" if "batch_tree req (items filtered) = Inl e" for e
    using that by (simp add: tree)
  have 4: "\<exists>serialized d.
      call translate reg batch_flat batch_tree req resp vocabulary_id
        (Vocabulary vocabulary) = (resp, Inr (JDict d)) \<and>
      map_of d ''items'' = Some (JList serialized) \<and>
      length serialized = length (batch_items batch) \<and>
      map_of d ''items_total'' = Some (JInt (items_total batch))"
    if b: "batch_flat req terms = Inr batch" and s: "list_all (serializes reg) (batch_items batch)"
    for batch
  proof -
    from serialize_terms_returns [OF s, of "[]"] obtain serialized where
      ser: "serialize_terms reg (batch_items batch) [] = Inr serialized"
      and len: "length serialized = length (batch_items batch)" by auto
    from batched_result_keys [of batch serialized] obtain d where
      "batched_result batch serialized = JDict d" "map_of d ''items'' = Some (JList serialized)"
      "map_of d ''items_total'' = Some (JInt (items_total batch))" by blast
    then show ?thesis using b ser len by (auto simp: flat)
  qed
  have 5: "\<exists>serialized d.
      call translate reg batch_flat batch_tree req resp vocabulary_id
        (TreeVocabulary tree) = (resp, Inr (JDict d)) \<and>
      map_of d ''items'' = Some (JList serialized) \<and>
      length serialized = length (batch_items batch) \<and>
      map_of d ''items_total'' = Some (JInt (items_total batch))"
    if b: "batch_tree req (items filtered) = Inr batch"
      and s: "\<forall>t \<in> set (tree_terms (OrderedDict (batch_items batch))). serializes reg t"
    for batch
  proof -
    from serialize_tree_loop_returns [OF s, of "[]"] obtain serialized where
      ser: "serialize_tree_vocab reg (Batch batch) = Inr serialized"
      and len: "length serialized = length (batch_items batch)"
      by (auto simp: serialize_tree_vocab_Batch)
    from batched_result_keys [of batch serialized] obtain d where
      "batched_result batch serialized = JDict d" "map_of d ''items'' = Some (JList serialized)"
      "map_of d ''items_total'' = Some (JInt (items_total batch))" by blast
    then show ?thesis using b ser len by (auto simp: tree)
  qed
  show ?thesis
    using 1 2 3 4 5 by blast
qed

theorem batched_result_has_items_total_witness:
  "form_b_size (title_request ''an'' []) \<noteq> ''-1'' \<and>
   (form_title (title_request ''an'' []) = [] \<or> form_token (title_request ''an'' []) = []) \<and>
   call id (term_adapters id) (first_page 1) (first_page 1) (title_request ''an'' [])
     \<lparr>status = 200\<rparr> ''sample'' (Vocabulary [apple, banana]) =
     (\<lparr>status = 200\<rparr>, Inr (JDict
        [(''@id'', JString ''http://nohost/@vocabularies/sample''),
         (''items'', JList
            [JDict [(''token'', JString ''banana''), (''title'', JString ''Banana'')]]),
         (''items_total'', JInt 1)]))"
proof -
  have b: "form_b_size (title_request ''an'' []) \<noteq> ''-1''"
    by (simp add: title_request_def)
  have c: "form_title (title_request ''an'' []) = [] \<or> form_token (title_request ''an'' []) = []"
    by (simp add: title_request_def)
  have q: "form_title (title_request ''an'' []) = ''an''"
    "form_token (title_request ''an'' []) = []"
    "form_tokens (title_request ''an'' []) = Lst []"
    by (simp_all add: title_request_def)
  have page: "first_page (Suc 0) (title_request ''an'' []) [banana] =
      Inr \<lparr>batch_items = [banana], canonical_url = ''http://nohost/@vocabularies/sample'',
        items_total = 1, links = []\<rparr>"
    by (simp add: first_page_def)
  have s: "list_all (serializes (term_adapters id)) [banana]"
    by (simp add: serializes_term_adapters)
  from batched_result_has_items_total [OF b c, where translate = id
      and reg = "term_adapters id" and batch_flat = "first_page 1"
      and batch_tree = "first_page 1" and resp = "\<lparr>status = 200\<rparr>"
      and vocabulary_id = "''sample''" and vocab = "Vocabulary [apple, banana]"
      and vocabulary = "[apple, banana]" and tree = sample_tree]
  have "\<exists>serialized d.
      call id (term_adapters id) (first_page 1) (first_page 1) (title_request ''an'' [])
        \<lparr>status = 200\<rparr> ''sample'' (Vocabulary [apple, banana]) =
        (\<lparr>status = 200\<rparr>, Inr (JDict d)) \<and>
      map_of d ''items'' = Some (JList serialized) \<and>
      length serialized = length [banana] \<and>
      map_of d ''items_total'' = Some (JInt 1)"
    using page s by (simp add: q sample_flat_filtered del: flat_loop.simps)
  moreover have "call id (term_adapters id) (first_page 1) (first_page 1)
      (title_request ''an'' []) \<lparr>status = 200\<rparr> ''sample'' (Vocabulary [apple, banana]) =
     (\<lparr>status = 200\<rparr>, Inr (JDict
        [(''@id'', JString ''http://nohost/@vocabularies/sample''),
         (''items'', JList
            [JDict [(''token'', JString ''banana''), (''title'', JString ''Banana'')]]),
         (''items_total'', JInt 1)]))"
    by (simp add: call_batched_flat [OF b c] q sample_flat_filtered page sample_serialized
        batched_result_def Let_def del: flat_loop.simps serialize_terms.simps)
  ultimately show ?thesis using b c by blast
qed

end
